theory Spec2Isabelle
  imports Complex_Main "HOL-Library.Word" "HOL-Library.Log_Nat"
begin

section \<open>Python primitives used by the sample extractor\<close>

text \<open>
  The development embeds \<^verbatim>\<open>m1_piano_osc/extract_samples_simple.py\<close> (the pure Python
  pipeline) and the parts of \<^verbatim>\<open>m1_piano_osc/extract_samples.py\<close> (the numpy pipeline)
  that differ from it. Sample values and frequencies are Python floats, modelled as the
  \<^typ>\<open>real\<close> numbers they denote. Indices, counts, rates and millisecond arguments are
  Python's unbounded integers, modelled as \<^typ>\<open>int\<close>. The float arithmetic of the
  resampler is rounded after every operation (section on rounding below); the conversions
  of the loop selector and of the attack are taken exact. Every exception the code can
  raise is a value of \<open>py_error\<close>.
\<close>

datatype py_error =
    IndexError
  | ZeroDivisionError
  | StructError
  | FrombufferError
  | UnsupportedSampleWidth int
  | MaxOfEmptySequence

text \<open>\<^verbatim>\<open>int(x)\<close> on a float: truncation towards zero.\<close>

definition py_int :: "real \<Rightarrow> int" where
  "py_int x = (if 0 \<le> x then \<lfloor>x\<rfloor> else \<lceil>x\<rceil>)"

text \<open>
  Subscription \<^verbatim>\<open>xs[i]\<close>. An index from \<open>-len(xs)\<close> up to \<open>-1\<close> addresses the list from
  its end; an index outside \<open>-len(xs) .. len(xs) - 1\<close> raises.
\<close>

definition py_get :: "'a list \<Rightarrow> int \<Rightarrow> py_error + 'a" where
  "py_get xs i =
     (if 0 \<le> i \<and> i < int (length xs) then Inr (xs ! nat i)
      else if i < 0 \<and> - int (length xs) \<le> i then Inr (xs ! nat (int (length xs) + i))
      else Inl IndexError)"

text \<open>The bound of a slice: negative bounds count from the end, then clamp to the list.\<close>

definition slice_bound :: "'a list \<Rightarrow> int \<Rightarrow> nat" where
  "slice_bound xs a =
     (let n = int (length xs)
      in if a < 0 then nat (max (n + a) 0) else nat (min a n))"

text \<open>\<^verbatim>\<open>xs[a:b]\<close> and \<^verbatim>\<open>xs[:b]\<close>: never raise.\<close>

definition py_slice :: "'a list \<Rightarrow> int \<Rightarrow> int \<Rightarrow> 'a list" where
  "py_slice xs a b = take (slice_bound xs b - slice_bound xs a) (drop (slice_bound xs a) xs)"

definition py_slice_to :: "'a list \<Rightarrow> int \<Rightarrow> 'a list" where
  "py_slice_to xs b = take (slice_bound xs b) xs"

text \<open>\<^verbatim>\<open>a / b\<close> on numbers: true division, raising on a zero divisor.\<close>

definition py_truediv :: "real \<Rightarrow> real \<Rightarrow> py_error + real" where
  "py_truediv a b = (if b = 0 then Inl ZeroDivisionError else Inr (a / b))"

text \<open>A \<^verbatim>\<open>for\<close> loop that appends one value per iteration and stops at the first raise.\<close>

fun collect :: "('a \<Rightarrow> py_error + 'b) \<Rightarrow> 'a list \<Rightarrow> py_error + 'b list" where
  "collect f [] = Inr []"
| "collect f (x # xs) =
     (case f x of
        Inl e \<Rightarrow> Inl e
      | Inr y \<Rightarrow> (case collect f xs of Inl e \<Rightarrow> Inl e | Inr ys \<Rightarrow> Inr (y # ys)))"

section \<open>Rounding of float operations\<close>

text \<open>
  A Python float is an IEEE 754 binary64 number, and every float operation returns the
  exact result rounded to the nearest number with a significand of 53 bits, a tie going to
  the even significand. \<open>fl64\<close> is that rounding, without the limits of the exponent
  (no overflow, no subnormal numbers). \<open>binade x\<close> is the exponent \<open>e\<close> with
  \<open>2 ^ e \<le> \<bar>x\<bar> < 2 ^ (e + 1)\<close>.
\<close>

definition pow2 :: "int \<Rightarrow> real" where
  "pow2 e = (if 0 \<le> e then 2 ^ nat e else 1 / 2 ^ nat (- e))"

definition round_even :: "real \<Rightarrow> int" where
  "round_even y =
     (let f = \<lfloor>y\<rfloor>; d = y - of_int f
      in if d < 1 / 2 then f else if 1 / 2 < d then f + 1 else if even f then f else f + 1)"

definition binade :: "real \<Rightarrow> int" where
  "binade x =
     (if 1 \<le> \<bar>x\<bar> then bitlen \<lfloor>\<bar>x\<bar>\<rfloor> - 1 else - bitlen (\<lceil>1 / \<bar>x\<bar>\<rceil> - 1))"

definition fl64 :: "real \<Rightarrow> real" where
  "fl64 x =
     (if x = 0 then 0
      else of_int (round_even (x / pow2 (binade x - 52))) * pow2 (binade x - 52))"

text \<open>
  The resampler takes the rounding of its float operations as the parameter \<open>rnd\<close>. Its
  properties need one fact of a rounding, which \<open>fl64\<close> has: the relative error of a
  result is at most \<open>2 ^ -53\<close>.
\<close>

definition standard_rounding :: "(real \<Rightarrow> real) \<Rightarrow> bool" where
  "standard_rounding rnd = (\<forall>x. \<bar>rnd x - x\<bar> \<le> \<bar>x\<bar> / 2 ^ 53)"

section \<open>Resampler: \<^verbatim>\<open>downsample_to_48k\<close>\<close>

text \<open>
  One iteration of the interpolation loop (lines 138 to 147 of the pure Python file), each
  float operation rounded: the product \<^verbatim>\<open>i * ratio\<close>, the difference \<^verbatim>\<open>pos - idx\<close> and
  the operations of the interpolation.
\<close>

definition interp_at :: "(real \<Rightarrow> real) \<Rightarrow> real list \<Rightarrow> real \<Rightarrow> int \<Rightarrow> py_error + real" where
  "interp_at rnd samples ratio i =
     (let pos = rnd (of_int i * ratio);
          idx = py_int pos;
          frac = rnd (pos - of_int idx)
      in if idx + 1 < int (length samples)
         then (case py_get samples idx of
                 Inl e \<Rightarrow> Inl e
               | Inr a \<Rightarrow> (case py_get samples (idx + 1) of
                             Inl e \<Rightarrow> Inl e
                           | Inr b \<Rightarrow> Inr (rnd (rnd (a * rnd (1 - frac)) + rnd (b * frac)))))
         else py_get samples idx)"

text \<open>
  Lines 128 to 149. \<^verbatim>\<open>ratio\<close> is the rounded quotient of the two rates and
  \<^verbatim>\<open>new_len\<close> is \<^verbatim>\<open>int\<close> of the rounded quotient \<^verbatim>\<open>len(samples) / ratio\<close>. The
  integers \<^verbatim>\<open>len(samples)\<close>, \<^verbatim>\<open>i\<close> and \<^verbatim>\<open>idx\<close> are converted to floats without error,
  which is the case below \<open>2 ^ 53\<close>.
\<close>

definition downsample_to_48k ::
  "(real \<Rightarrow> real) \<Rightarrow> real list \<Rightarrow> int \<Rightarrow> int \<Rightarrow> py_error + real list" where
  "downsample_to_48k rnd samples original_rate target_rate =
     (if original_rate = target_rate then Inr samples
      else case py_truediv (of_int original_rate) (of_int target_rate) of
             Inl e \<Rightarrow> Inl e
           | Inr r \<Rightarrow>
               (let ratio = rnd r
                in case py_truediv (of_int (int (length samples))) ratio of
                     Inl e \<Rightarrow> Inl e
                   | Inr q \<Rightarrow>
                       (let new_len = py_int (rnd q)
                        in collect (interp_at rnd samples ratio) [0..new_len - 1])))"

section \<open>Zero-crossing finder: \<^verbatim>\<open>find_zero_crossings\<close>\<close>

text \<open>
  The test \<^verbatim>\<open>samples[i] <= 0 and samples[i+1] > 0\<close>. The right operand is read only when
  the left one holds.
\<close>

definition rising :: "real list \<Rightarrow> int \<Rightarrow> py_error + bool" where
  "rising samples i =
     (case py_get samples i of
        Inl e \<Rightarrow> Inl e
      | Inr a \<Rightarrow>
          if a \<le> 0
          then (case py_get samples (i + 1) of Inl e \<Rightarrow> Inl e | Inr b \<Rightarrow> Inr (0 < b))
          else Inr False)"

text \<open>
  The loop of the pure Python finder over the remaining indices of
  \<^verbatim>\<open>range(start_idx, len(samples) - 1)\<close>, with the loop variables \<open>crossings\<close> and
  \<open>last_crossing\<close>; the \<^verbatim>\<open>break\<close> is the early return.
\<close>

fun zc_loop :: "real list \<Rightarrow> int \<Rightarrow> int \<Rightarrow> int list \<Rightarrow> int list \<Rightarrow> int \<Rightarrow> py_error + int list" where
  "zc_loop samples count min_distance [] crossings last_crossing = Inr crossings"
| "zc_loop samples count min_distance (i # rest) crossings last_crossing =
     (case rising samples i of
        Inl e \<Rightarrow> Inl e
      | Inr r \<Rightarrow>
          if r \<and> min_distance \<le> i - last_crossing
          then (if count \<le> int (length (crossings @ [i])) then Inr (crossings @ [i])
                else zc_loop samples count min_distance rest (crossings @ [i]) i)
          else (if count \<le> int (length crossings) then Inr crossings
                else zc_loop samples count min_distance rest crossings last_crossing))"

definition find_zero_crossings :: "real list \<Rightarrow> int \<Rightarrow> int \<Rightarrow> int \<Rightarrow> py_error + int list" where
  "find_zero_crossings samples start_idx count min_distance =
     zc_loop samples count min_distance [start_idx..int (length samples) - 2] [] (- min_distance)"

text \<open>The finder of the numpy pipeline: no spacing test, and the count fixed at 10.\<close>

fun zc_loop_np :: "real list \<Rightarrow> int list \<Rightarrow> int list \<Rightarrow> py_error + int list" where
  "zc_loop_np samples [] crossings = Inr crossings"
| "zc_loop_np samples (i # rest) crossings =
     (case rising samples i of
        Inl e \<Rightarrow> Inl e
      | Inr r \<Rightarrow>
          if r
          then (if 10 \<le> int (length (crossings @ [i])) then Inr (crossings @ [i])
                else zc_loop_np samples rest (crossings @ [i]))
          else (if 10 \<le> int (length crossings) then Inr crossings
                else zc_loop_np samples rest crossings))"

definition find_zero_crossings_np :: "real list \<Rightarrow> int \<Rightarrow> py_error + int list" where
  "find_zero_crossings_np samples start_idx =
     zc_loop_np samples [start_idx..int (length samples) - 2] []"

section \<open>Loop cycle selector: \<^verbatim>\<open>find_best_loop_cycle\<close>\<close>

text \<open>The distance of the spacing of the adjacent pair \<open>i\<close> from the expected cycle length.\<close>

definition pair_diff :: "int list \<Rightarrow> int \<Rightarrow> nat \<Rightarrow> int" where
  "pair_diff crossings expected_cycle_len i =
     \<bar>(crossings ! (i + 1) - crossings ! i) - expected_cycle_len\<bar>"

text \<open>
  The scan for the best pair, with the loop variables \<open>best_idx\<close> and \<open>best_diff\<close>;
  \<open>None\<close> is the initial \<^verbatim>\<open>float('inf')\<close>.
\<close>

fun best_scan :: "int list \<Rightarrow> int \<Rightarrow> nat list \<Rightarrow> nat \<Rightarrow> int option \<Rightarrow> nat" where
  "best_scan crossings expected_cycle_len [] best_idx best_diff = best_idx"
| "best_scan crossings expected_cycle_len (i # rest) best_idx best_diff =
     (let diff = pair_diff crossings expected_cycle_len i
      in if (case best_diff of None \<Rightarrow> True | Some b \<Rightarrow> diff < b)
         then best_scan crossings expected_cycle_len rest i (Some diff)
         else best_scan crossings expected_cycle_len rest best_idx best_diff)"

text \<open>Lines 42 to 64: the fallback, the scan and the final slice, shared by both files.\<close>

definition select_cycle :: "real list \<Rightarrow> int \<Rightarrow> int \<Rightarrow> int list \<Rightarrow> real list" where
  "select_cycle samples start_sample expected_cycle_len crossings =
     (if length crossings < 2
      then py_slice samples start_sample (start_sample + expected_cycle_len)
      else let best_idx = best_scan crossings expected_cycle_len [0..<length crossings - 1] 0 None
           in py_slice samples (crossings ! best_idx) (crossings ! (best_idx + 1)))"

definition start_sample_of :: "int \<Rightarrow> int \<Rightarrow> int" where
  "start_sample_of start_ms sample_rate = py_int (of_int (start_ms * sample_rate) / 1000)"

definition min_dist_of :: "int \<Rightarrow> int" where
  "min_dist_of expected_cycle_len = py_int (of_int expected_cycle_len * (8 / 10))"

definition find_best_loop_cycle :: "real list \<Rightarrow> int \<Rightarrow> int \<Rightarrow> real \<Rightarrow> py_error + real list" where
  "find_best_loop_cycle samples start_ms sample_rate base_freq =
     (let start_sample = start_sample_of start_ms sample_rate
      in case py_truediv (of_int sample_rate) base_freq of
           Inl e \<Rightarrow> Inl e
         | Inr q \<Rightarrow>
             (let expected_cycle_len = py_int q;
                  min_dist = min_dist_of expected_cycle_len
              in case find_zero_crossings samples start_sample 10 min_dist of
                   Inl e \<Rightarrow> Inl e
                 | Inr crossings \<Rightarrow>
                     Inr (select_cycle samples start_sample expected_cycle_len crossings)))"

definition find_best_loop_cycle_np :: "real list \<Rightarrow> int \<Rightarrow> int \<Rightarrow> real \<Rightarrow> py_error + real list" where
  "find_best_loop_cycle_np samples start_ms sample_rate base_freq =
     (let start_sample = start_sample_of start_ms sample_rate
      in case py_truediv (of_int sample_rate) base_freq of
           Inl e \<Rightarrow> Inl e
         | Inr q \<Rightarrow>
             (let expected_cycle_len = py_int q
              in case find_zero_crossings_np samples start_sample of
                   Inl e \<Rightarrow> Inl e
                 | Inr crossings \<Rightarrow>
                     Inr (select_cycle samples start_sample expected_cycle_len crossings)))"

section \<open>Decoding and extraction: \<^verbatim>\<open>extract_attack_and_loop\<close>\<close>

text \<open>
  What \<^verbatim>\<open>wave.open\<close> hands to the extractor: the header fields and the bytes returned by
  \<^verbatim>\<open>readframes\<close>. Opening and reading the file belong to the \<^verbatim>\<open>wave\<close> library and are
  not modelled.
\<close>

record wav_file =
  nchannels :: int
  sampwidth :: int
  framerate :: int
  nframes :: int
  frame_bytes :: "8 word list"

text \<open>\<^verbatim>\<open>struct.unpack('<Nh', raw)\<close>: little-endian signed 16-bit values, exactly \<open>N\<close> of them.\<close>

fun unpack_le16 :: "8 word list \<Rightarrow> int list" where
  "unpack_le16 (lo # hi # rest) =
     (let u = uint lo + 256 * uint hi
      in (if u < 32768 then u else u - 65536) # unpack_le16 rest)"
| "unpack_le16 [b] = []"
| "unpack_le16 [] = []"

definition struct_unpack_h :: "int \<Rightarrow> 8 word list \<Rightarrow> py_error + int list" where
  "struct_unpack_h n raw =
     (if n < 0 \<or> int (length raw) \<noteq> 2 * n then Inl StructError else Inr (unpack_le16 raw))"

text \<open>\<^verbatim>\<open>samples[::2]\<close>: the left channel of interleaved stereo.\<close>

fun every_other :: "'a list \<Rightarrow> 'a list" where
  "every_other (x # y # rest) = x # every_other rest"
| "every_other [x] = [x]"
| "every_other [] = []"

text \<open>\<^verbatim>\<open>max(abs(s) for s in xs)\<close>, which raises on an empty sequence.\<close>

definition max_abs :: "real list \<Rightarrow> py_error + real" where
  "max_abs xs =
     (case xs of
        [] \<Rightarrow> Inl MaxOfEmptySequence
      | x # rest \<Rightarrow> Inr (fold (\<lambda>s m. max m \<bar>s\<bar>) rest \<bar>x\<bar>))"

text \<open>Lines 104 and 105: the attack is the first \<^verbatim>\<open>int(attack_ms * rate / 1000)\<close> samples.\<close>

definition extract_attack :: "real list \<Rightarrow> int \<Rightarrow> int \<Rightarrow> real list" where
  "extract_attack samples attack_ms rate =
     py_slice_to samples (py_int (of_int (attack_ms * rate) / 1000))"

text \<open>
  The pure Python extractor. The diagnostics it prints are not modelled, but the
  expressions evaluated for them are, in the order of the source, because they can raise.
  The base frequency passed to \<^verbatim>\<open>find_best_loop_cycle\<close> is its default, 261.63.
\<close>

definition extract_attack_and_loop ::
  "wav_file \<Rightarrow> int \<Rightarrow> int \<Rightarrow> py_error + (real list \<times> real list \<times> int)" where
  "extract_attack_and_loop wav attack_ms loop_start_ms =
     (let channels = nchannels wav; width = sampwidth wav; rate = framerate wav;
          frames = nframes wav; raw_data = frame_bytes wav
      in if width \<noteq> 2 then Inl (UnsupportedSampleWidth width)
         else case struct_unpack_h (frames * channels) raw_data of
           Inl e \<Rightarrow> Inl e
         | Inr unpacked \<Rightarrow>
         (let mono = (if channels = 2 then every_other unpacked else unpacked);
              samples = map (\<lambda>s. of_int s / 32768) mono
          in case max_abs samples of
            Inl e \<Rightarrow> Inl e
          | Inr peak \<Rightarrow>
          (case py_truediv (of_int (int (length samples))) (of_int rate) of
            Inl e \<Rightarrow> Inl e
          | Inr duration \<Rightarrow>
          (let attack = extract_attack samples attack_ms rate
           in case max_abs attack of
             Inl e \<Rightarrow> Inl e
           | Inr attack_peak \<Rightarrow>
           (case find_best_loop_cycle samples loop_start_ms rate (26163 / 100) of
             Inl e \<Rightarrow> Inl e
           | Inr loop_cycle \<Rightarrow>
           (case max_abs loop_cycle of
             Inl e \<Rightarrow> Inl e
           | Inr loop_peak \<Rightarrow>
           (case py_truediv (of_int rate) (of_int (int (length loop_cycle))) of
             Inl e \<Rightarrow> Inl e
           | Inr loop_frequency \<Rightarrow> Inr (attack, loop_cycle, rate))))))))"

text \<open>
  The numpy extractor. \<^verbatim>\<open>np.frombuffer\<close> is library code outside the repository; it is
  the parameter \<open>frombuffer\<close>, with \<open>None\<close> for the cases in which it raises.
\<close>

definition extract_attack_and_loop_np ::
  "(8 word list \<Rightarrow> int list option) \<Rightarrow> wav_file \<Rightarrow> int \<Rightarrow> int
     \<Rightarrow> py_error + (real list \<times> real list \<times> int)" where
  "extract_attack_and_loop_np frombuffer wav attack_ms loop_start_ms =
     (let channels = nchannels wav; width = sampwidth wav; rate = framerate wav;
          raw_data = frame_bytes wav
      in if width \<noteq> 2 then Inl (UnsupportedSampleWidth width)
         else case frombuffer raw_data of
           None \<Rightarrow> Inl FrombufferError
         | Some unpacked \<Rightarrow>
         (let mono = (if channels = 2 then every_other unpacked else unpacked);
              samples = map (\<lambda>s. of_int s / 32768) mono
          in case py_truediv (of_int (int (length samples))) (of_int rate) of
            Inl e \<Rightarrow> Inl e
          | Inr duration \<Rightarrow>
          (case max_abs samples of
            Inl e \<Rightarrow> Inl e
          | Inr peak \<Rightarrow>
          (let attack = extract_attack samples attack_ms rate
           in case max_abs attack of
             Inl e \<Rightarrow> Inl e
           | Inr attack_peak \<Rightarrow>
           (case find_best_loop_cycle_np samples loop_start_ms rate (26163 / 100) of
             Inl e \<Rightarrow> Inl e
           | Inr loop_cycle \<Rightarrow>
           (case py_truediv (of_int rate) (of_int (int (length loop_cycle))) of
             Inl e \<Rightarrow> Inl e
           | Inr loop_frequency \<Rightarrow>
           (case max_abs loop_cycle of
             Inl e \<Rightarrow> Inl e
           | Inr loop_peak \<Rightarrow> Inr (attack, loop_cycle, rate))))))))"

section \<open>The pipeline: \<^verbatim>\<open>main\<close>\<close>

text \<open>
  The generated header lists the two resampled tables; \<^verbatim>\<open>generate_c_array\<close> only formats
  them as text, so the content of the output file is represented by the tables themselves.
  \<open>main\<close> takes the decoded input file and the previous content of the output file
  (\<open>None\<close> when it does not exist) and returns the outcome with the new content. The
  resampler runs with binary64 rounding.
\<close>

record samples_data =
  k_attack_samples :: "real list"
  k_loop_samples :: "real list"

definition main :: "wav_file \<Rightarrow> samples_data option \<Rightarrow> (py_error + unit) \<times> samples_data option" where
  "main wav out =
     (case extract_attack_and_loop wav 45 200 of
        Inl e \<Rightarrow> (Inl e, out)
      | Inr (attack, loop_cycle, rate) \<Rightarrow>
          (case downsample_to_48k fl64 attack rate 48000 of
             Inl e \<Rightarrow> (Inl e, out)
           | Inr attack_48k \<Rightarrow>
               (case downsample_to_48k fl64 loop_cycle rate 48000 of
                  Inl e \<Rightarrow> (Inl e, out)
                | Inr loop_48k \<Rightarrow>
                    (Inr (), Some \<lparr>k_attack_samples = attack_48k, k_loop_samples = loop_48k\<rparr>))))"

section \<open>An auxiliary predicate\<close>

text \<open>Consecutive entries of a crossing sequence are at least \<open>d\<close> apart.\<close>

definition spaced :: "int \<Rightarrow> int list \<Rightarrow> bool" where
  "spaced d cs = (\<forall>k. Suc k < length cs \<longrightarrow> d \<le> cs ! Suc k - cs ! k)"

section \<open>Facts about the zero-crossing finder\<close>

lemma spaced_snoc:
  assumes "spaced d cs" and "cs \<noteq> [] \<Longrightarrow> d \<le> i - last cs"
  shows "spaced d (cs @ [i])"
  unfolding spaced_def
proof (intro allI impI)
  fix k assume k: "Suc k < length (cs @ [i])"
  show "d \<le> (cs @ [i]) ! Suc k - (cs @ [i]) ! k"
  proof (cases "Suc k < length cs")
    case True
    then show ?thesis using assms(1) by (simp add: spaced_def nth_append)
  next
    case False
    with k have e: "Suc k = length cs" by simp
    then have ne: "cs \<noteq> []" by auto
    have "last cs = cs ! k" using e[symmetric] ne by (simp add: last_conv_nth)
    with assms(2)[OF ne] e show ?thesis by (simp add: nth_append)
  qed
qed

lemma zc_loop_spaced:
  assumes "zc_loop samples count d idxs crossings lc = Inr cs"
    and "spaced d crossings" and "crossings \<noteq> [] \<Longrightarrow> last crossings = lc"
  shows "spaced d cs"
  using assms
proof (induction idxs arbitrary: crossings lc)
  case Nil
  then show ?case by simp
next
  case (Cons i rest)
  show ?case
  proof (cases "rising samples i")
    case (Inl e)
    with Cons.prems(1) show ?thesis by simp
  next
    case (Inr r)
    show ?thesis
    proof (cases "r \<and> d \<le> i - lc")
      case True
      have sp: "spaced d (crossings @ [i])"
        using Cons.prems(2,3) True by (intro spaced_snoc) auto
      show ?thesis
      proof (cases "count \<le> int (length (crossings @ [i]))")
        case True
        with Cons.prems(1) Inr \<open>r \<and> d \<le> i - lc\<close> sp show ?thesis by simp
      next
        case False
        with Cons.prems(1) Inr \<open>r \<and> d \<le> i - lc\<close>
        have "zc_loop samples count d rest (crossings @ [i]) i = Inr cs" by simp
        from Cons.IH[OF this sp] show ?thesis by simp
      qed
    next
      case False
      show ?thesis
      proof (cases "count \<le> int (length crossings)")
        case True
        with Cons.prems(1) Inr False Cons.prems(2) show ?thesis by auto
      next
        case c: False
        with Cons.prems(1) Inr False
        have "zc_loop samples count d rest crossings lc = Inr cs" by auto
        from Cons.IH[OF this Cons.prems(2,3)] show ?thesis by simp
      qed
    qed
  qed
qed

lemma find_zero_crossings_spaced:
  "find_zero_crossings samples start count d = Inr cs \<Longrightarrow> spaced d cs"
  unfolding find_zero_crossings_def
  by (erule zc_loop_spaced) (simp_all add: spaced_def)

lemma py_get_in_range:
  "0 \<le> i \<Longrightarrow> i < int (length xs) \<Longrightarrow> py_get xs i = Inr (xs ! nat i)"
  by (simp add: py_get_def)

lemma rising_in_range:
  assumes "0 \<le> i" and "i + 1 < int (length samples)"
  shows "rising samples i = Inr (samples ! nat i \<le> 0 \<and> 0 < samples ! nat (i + 1))"
  using assms by (simp add: rising_def py_get_in_range)

lemma zc_loop_total:
  assumes "\<forall>i \<in> set idxs. 0 \<le> i \<and> i + 1 < int (length samples)"
  shows "\<exists>cs. zc_loop samples count d idxs crossings lc = Inr cs"
  using assms
proof (induction idxs arbitrary: crossings lc)
  case Nil
  then show ?case by simp
next
  case (Cons i rest)
  then have r: "rising samples i = Inr (samples ! nat i \<le> 0 \<and> 0 < samples ! nat (i + 1))"
    by (simp add: rising_in_range)
  from Cons have IH: "\<And>crossings lc. \<exists>cs. zc_loop samples count d rest crossings lc = Inr cs"
    by simp
  show ?case using IH r by simp
qed

lemma find_zero_crossings_total:
  "0 \<le> start \<Longrightarrow> \<exists>cs. find_zero_crossings samples start count d = Inr cs"
  unfolding find_zero_crossings_def by (rule zc_loop_total) auto

lemma zc_loop_extends:
  "zc_loop samples count d idxs crossings lc = Inr cs \<Longrightarrow> \<exists>ys. cs = crossings @ ys"
proof (induction idxs arbitrary: crossings lc)
  case Nil
  then show ?case by simp
next
  case (Cons i rest)
  show ?case
  proof (cases "rising samples i")
    case (Inl e)
    with Cons.prems show ?thesis by simp
  next
    case (Inr r)
    show ?thesis
    proof (cases "r \<and> d \<le> i - lc")
      case True
      show ?thesis
      proof (cases "count \<le> int (length (crossings @ [i]))")
        case c: True
        with Cons.prems Inr True show ?thesis by auto
      next
        case c: False
        with Cons.prems Inr True
        have "zc_loop samples count d rest (crossings @ [i]) i = Inr cs" by simp
        from Cons.IH[OF this] show ?thesis by auto
      qed
    next
      case False
      show ?thesis
      proof (cases "count \<le> int (length crossings)")
        case c: True
        with Cons.prems Inr False show ?thesis by auto
      next
        case c: False
        with Cons.prems Inr False
        have "zc_loop samples count d rest crossings lc = Inr cs" by auto
        from Cons.IH[OF this] show ?thesis .
      qed
    qed
  qed
qed

lemma zc_loop_skip:
  assumes "\<forall>j \<in> set pre. rising samples j = Inr False" and "1 \<le> count"
  shows "zc_loop samples count d (pre @ idxs) [] lc = zc_loop samples count d idxs [] lc"
  using assms by (induction pre) auto

lemma zc_loop_first:
  assumes "zc_loop samples count d (pre @ i # rest) [] (- d) = Inr cs"
    and "\<forall>j \<in> set pre. rising samples j = Inr False"
    and "rising samples i = Inr True"
    and "0 \<le> i"
    and "1 \<le> count \<or> pre = []"
  shows "cs \<noteq> [] \<and> hd cs = i"
proof -
  have eq: "zc_loop samples count d (pre @ i # rest) [] (- d) = zc_loop samples count d (i # rest) [] (- d)"
    using assms(5)
  proof
    assume "1 \<le> count" with assms(2) show ?thesis by (rule zc_loop_skip)
  next
    assume "pre = []" then show ?thesis by simp
  qed
  show ?thesis
  proof (cases "count \<le> 1")
    case True
    with assms(1,3,4) eq have "cs = [i]" by simp
    then show ?thesis by simp
  next
    case False
    with assms(1,3,4) eq have "zc_loop samples count d rest [i] i = Inr cs" by simp
    from zc_loop_extends[OF this] show ?thesis by auto
  qed
qed

lemma find_zero_crossings_first:
  assumes "find_zero_crossings samples start count d = Inr cs"
    and "0 \<le> start" and "start \<le> i" and "i + 1 < int (length samples)"
    and "rising samples i = Inr True"
    and "\<forall>j. start \<le> j \<and> j < i \<longrightarrow> rising samples j = Inr False"
    and "1 \<le> count \<or> i = start"
  shows "cs \<noteq> [] \<and> hd cs = i"
proof -
  have split: "[start..int (length samples) - 2] = [start..i - 1] @ i # [i + 1..int (length samples) - 2]"
    using assms(3,4) by (intro upto_split3) auto
  show ?thesis
  proof (rule zc_loop_first)
    show "zc_loop samples count d ([start..i - 1] @ i # [i + 1..int (length samples) - 2]) [] (- d) = Inr cs"
      using assms(1) split by (simp add: find_zero_crossings_def)
    show "\<forall>j \<in> set [start..i - 1]. rising samples j = Inr False" using assms(6) by auto
    show "rising samples i = Inr True" by fact
    show "0 \<le> i" using assms(2,3) by simp
    show "1 \<le> count \<or> [start..i - 1] = []" using assms(7) by auto
  qed
qed

section \<open>Zero-crossing finder properties\<close>

text \<open>
  Claim C2. In the sequence returned by \<^verbatim>\<open>find_zero_crossings\<close>, for any buffer, start
  index, count and minimum distance, consecutive crossings are at least \<open>min_distance\<close>
  apart. When the scan starts at an offset into the buffer (\<open>0 \<le> start_idx\<close>) the finder
  returns a sequence, and the first rising crossing the scan meets is accepted: it is the
  head of the result, because \<open>last_crossing\<close> starts at \<open>- min_distance\<close>. With a count
  below 1 the loop stops after its first iteration, so the scan meets only the index
  \<open>start_idx\<close>.
\<close>

theorem crossing_spacing:
  "(\<forall>cs. find_zero_crossings samples start_idx count min_distance = Inr cs \<longrightarrow>
      (\<forall>k. Suc k < length cs \<longrightarrow> min_distance \<le> cs ! Suc k - cs ! k))
   \<and> (0 \<le> start_idx \<longrightarrow>
      (\<exists>cs. find_zero_crossings samples start_idx count min_distance = Inr cs
        \<and> (\<forall>i. start_idx \<le> i \<and> i + 1 < int (length samples)
                \<and> rising samples i = Inr True
                \<and> (\<forall>j. start_idx \<le> j \<and> j < i \<longrightarrow> rising samples j = Inr False)
                \<and> (1 \<le> count \<or> i = start_idx)
              \<longrightarrow> cs \<noteq> [] \<and> hd cs = i)))"
proof (intro conjI allI impI)
  fix cs k
  assume "find_zero_crossings samples start_idx count min_distance = Inr cs" and "Suc k < length cs"
  then show "min_distance \<le> cs ! Suc k - cs ! k"
    using find_zero_crossings_spaced[of samples start_idx count min_distance cs]
    by (simp add: spaced_def)
next
  assume s: "0 \<le> start_idx"
  then obtain cs where cs: "find_zero_crossings samples start_idx count min_distance = Inr cs"
    using find_zero_crossings_total by blast
  have "\<forall>i. start_idx \<le> i \<and> i + 1 < int (length samples)
                \<and> rising samples i = Inr True
                \<and> (\<forall>j. start_idx \<le> j \<and> j < i \<longrightarrow> rising samples j = Inr False)
                \<and> (1 \<le> count \<or> i = start_idx)
              \<longrightarrow> cs \<noteq> [] \<and> hd cs = i"
    using find_zero_crossings_first[OF cs s] by blast
  with cs show "\<exists>cs. find_zero_crossings samples start_idx count min_distance = Inr cs
        \<and> (\<forall>i. start_idx \<le> i \<and> i + 1 < int (length samples)
                \<and> rising samples i = Inr True
                \<and> (\<forall>j. start_idx \<le> j \<and> j < i \<longrightarrow> rising samples j = Inr False)
                \<and> (1 \<le> count \<or> i = start_idx)
              \<longrightarrow> cs \<noteq> [] \<and> hd cs = i)"
    by blast
qed

theorem crossing_spacing_witness:
  "find_zero_crossings [0, -1, 1, -1, 1, -1, 1] 0 10 3 = Inr [1, 5]
   \<and> (3::int) \<le> [1, 5] ! Suc 0 - [1, 5] ! 0
   \<and> rising [0, -1, 1, -1, 1, -1, 1] 1 = Inr True
   \<and> hd [1, 5 :: int] = 1"
proof -
  let ?s = "[0, -1, 1, -1, 1, -1, 1] :: real list"
  have e: "find_zero_crossings ?s 0 10 3 = Inr [1, 5]" by code_simp
  have r: "rising ?s 1 = Inr True" by code_simp
  have r0: "\<forall>j::int. 0 \<le> j \<and> j < 1 \<longrightarrow> rising ?s j = Inr False"
  proof (intro allI impI)
    fix j :: int assume "0 \<le> j \<and> j < 1"
    then have "j = 0" by simp
    then show "rising ?s j = Inr False" by (simp add: rising_def py_get_def)
  qed
  note t = crossing_spacing[of ?s 0 10 3]
  from t e have a: "(3::int) \<le> [1, 5] ! Suc 0 - [1, 5] ! 0" by simp
  from t e r r0 have b: "[1, 5 :: int] \<noteq> [] \<and> hd [1, 5 :: int] = 1"
    by (auto simp del: upto.simps)
  from e a r b show ?thesis by blast
qed

section \<open>Resampler properties\<close>

text \<open>
  Claim C5. Resampling a buffer to the rate it already has returns the buffer itself:
  the same samples value for value, with no interpolation step and no rounding.
\<close>

theorem resample_identity:
  "downsample_to_48k rnd samples rate rate = Inr samples"
  by (simp add: downsample_to_48k_def)

section \<open>Facts about the loop cycle selector\<close>








lemma find_best_loop_cycle_unfold:
  assumes "base_freq \<noteq> 0"
    and "find_zero_crossings samples (start_sample_of start_ms rate) 10
           (min_dist_of (py_int (of_int rate / base_freq))) = Inr cs"
  shows "find_best_loop_cycle samples start_ms rate base_freq =
           Inr (select_cycle samples (start_sample_of start_ms rate) (py_int (of_int rate / base_freq)) cs)"
  using assms by (simp add: find_best_loop_cycle_def py_truediv_def Let_def)

lemma select_cycle_fallback:
  "length cs < 2 \<Longrightarrow>
     select_cycle samples start e cs = py_slice samples start (start + e)"
  by (simp add: select_cycle_def)




lemma py_slice_beyond:
  assumes "int (length xs) \<le> a"
  shows "py_slice xs a b = []"
proof -
  have "0 \<le> a" using assms by linarith
  then have "slice_bound xs a = length xs" using assms by (auto simp add: slice_bound_def Let_def min_def)
  then show ?thesis by (simp add: py_slice_def)
qed

lemma find_zero_crossings_beyond:
  assumes "int (length samples) \<le> start"
  shows "find_zero_crossings samples start count d = Inr []"
  using assms by (simp add: find_zero_crossings_def)

text \<open>
  When the loop search starts beyond the end of the buffer, \<^verbatim>\<open>find_best_loop_cycle\<close> returns
  an empty cycle and its caller then raises at \<^verbatim>\<open>max(abs(s) for s in loop_cycle)\<close>.
\<close>

lemma extract_fails_on_empty_loop:
  "extract_attack_and_loop
     \<lparr>nchannels = 1, sampwidth = 2, framerate = 1000, nframes = 3,
      frame_bytes = [255, 255, 1, 0, 255, 255]\<rparr> 1 5 = Inl MaxOfEmptySequence"
  by code_simp

section \<open>Loop cycle selector properties\<close>





text \<open>
  Claim C10. When the start sample is at or beyond the end of the buffer,
  \<^verbatim>\<open>find_best_loop_cycle\<close> raises nothing: the crossing search finds nothing, the fallback
  slice is taken, and that slice is empty.
\<close>

theorem loop_start_beyond_end:
  assumes "base_freq \<noteq> 0"
    and "start_sample = start_sample_of start_ms sample_rate"
    and "expected_cycle_len = py_int (of_int sample_rate / base_freq)"
    and "int (length samples) \<le> start_sample"
  shows "find_zero_crossings samples start_sample 10 (min_dist_of expected_cycle_len) = Inr []
     \<and> find_best_loop_cycle samples start_ms sample_rate base_freq =
         Inr (py_slice samples start_sample (start_sample + expected_cycle_len))
     \<and> py_slice samples start_sample (start_sample + expected_cycle_len) = []"
proof -
  have z: "find_zero_crossings samples start_sample 10 (min_dist_of expected_cycle_len) = Inr []"
    using assms(4) by (rule find_zero_crossings_beyond)
  have r: "find_best_loop_cycle samples start_ms sample_rate base_freq =
         Inr (py_slice samples start_sample (start_sample + expected_cycle_len))"
    using find_best_loop_cycle_unfold[OF assms(1), of samples start_ms sample_rate "[]"]
      assms(2,3) z by (simp add: select_cycle_fallback)
  have e: "py_slice samples start_sample (start_sample + expected_cycle_len) = []"
    using assms(4) by (rule py_slice_beyond)
  from z r e show ?thesis by blast
qed

theorem loop_start_beyond_end_witness:
  "(250::real) \<noteq> 0
   \<and> (5::int) = start_sample_of 5 1000
   \<and> (4::int) = py_int (of_int 1000 / 250)
   \<and> int (length [-1, 1, -1 :: real]) \<le> 5
   \<and> find_zero_crossings [-1, 1, -1] 5 10 (min_dist_of 4) = Inr []
   \<and> find_best_loop_cycle [-1, 1, -1] 5 1000 250 = Inr []"
proof -
  let ?s = "[-1, 1, -1] :: real list"
  have h1: "(250::real) \<noteq> 0" by simp
  have h2: "(5::int) = start_sample_of 5 1000" by (simp add: start_sample_of_def py_int_def)
  have h3: "(4::int) = py_int (of_int 1000 / 250)" by (simp add: py_int_def)
  have h4: "int (length ?s) \<le> 5" by simp
  from loop_start_beyond_end[OF h1 h2 h3 h4]
  have "find_zero_crossings ?s 5 10 (min_dist_of 4) = Inr []
     \<and> find_best_loop_cycle ?s 5 1000 250 = Inr []" by simp
  with h1 h2 h3 h4 show ?thesis by blast
qed

section \<open>Facts about rounding\<close>

text \<open>\<open>fl64\<close> has a relative error of at most \<open>2 ^ -53\<close>.\<close>

lemma pow2_pos: "0 < pow2 e"
  by (simp add: pow2_def)

lemma pow2_add: "pow2 (a + b) = pow2 a * pow2 b"
proof -
  have p: "pow2 e = 2 powi e" for e
    by (simp add: pow2_def power_int_def field_simps)
  show ?thesis unfolding p by (simp add: power_int_add)
qed

lemma pow2_52: "pow2 52 = 2 ^ 52"
  by (simp add: pow2_def)

lemma round_even_error: "\<bar>of_int (round_even y) - y\<bar> \<le> 1 / 2"
proof -
  have "of_int \<lfloor>y\<rfloor> \<le> y" and "y < of_int \<lfloor>y\<rfloor> + 1" by linarith+
  then show ?thesis by (auto simp: round_even_def Let_def)
qed

lemma binade_lower:
  assumes "x \<noteq> 0"
  shows "pow2 (binade x) \<le> \<bar>x\<bar>"
proof (cases "1 \<le> \<bar>x\<bar>")
  case True
  define n where "n = \<lfloor>\<bar>x\<bar>\<rfloor>"
  have n: "0 < n" using True by (simp add: n_def)
  have b: "0 \<le> bitlen n - 1" using n by (simp add: bitlen_alt_def)
  have "(2::int) ^ nat (bitlen n - 1) \<le> n" using bitlen_bounds[OF n] by simp
  then have "(of_int ((2::int) ^ nat (bitlen n - 1)) :: real) \<le> of_int n" by (simp only: of_int_le_iff)
  also have "(of_int n :: real) \<le> \<bar>x\<bar>" by (simp add: n_def)
  finally have "(2::real) ^ nat (bitlen n - 1) \<le> \<bar>x\<bar>" by simp
  then show ?thesis using True b by (simp add: binade_def pow2_def n_def)
next
  case False
  define m where "m = \<lceil>1 / \<bar>x\<bar>\<rceil> - 1"
  have x: "0 < \<bar>x\<bar>" "\<bar>x\<bar> < 1" using assms False by simp_all
  then have "1 < 1 / \<bar>x\<bar>" by simp
  then have m: "0 < m" unfolding m_def by linarith
  have bl: "0 < bitlen m" using m by (simp add: bitlen_alt_def)
  have "m < 2 ^ nat (bitlen m)" using bitlen_bounds[OF m] by simp
  then have "m + 1 \<le> 2 ^ nat (bitlen m)" by simp
  then have "(of_int (m + 1) :: real) \<le> of_int (2 ^ nat (bitlen m))" by (simp only: of_int_le_iff)
  then have c: "(of_int (m + 1) :: real) \<le> 2 ^ nat (bitlen m)" by simp
  have "1 / \<bar>x\<bar> \<le> of_int \<lceil>1 / \<bar>x\<bar>\<rceil>" by linarith
  also have "\<dots> = of_int (m + 1)" by (simp add: m_def)
  finally have "1 / \<bar>x\<bar> \<le> 2 ^ nat (bitlen m)" using c by linarith
  then have "1 \<le> 2 ^ nat (bitlen m) * \<bar>x\<bar>" using x(1) by (simp add: pos_divide_le_eq)
  then have "1 / 2 ^ nat (bitlen m) \<le> \<bar>x\<bar>" by (simp add: pos_divide_le_eq mult.commute)
  then show ?thesis using False bl by (simp add: binade_def pow2_def m_def)
qed

lemma fl64_standard: "standard_rounding fl64"
  unfolding standard_rounding_def
proof
  fix x :: real
  show "\<bar>fl64 x - x\<bar> \<le> \<bar>x\<bar> / 2 ^ 53"
  proof (cases "x = 0")
    case True
    then show ?thesis by (simp add: fl64_def)
  next
    case False
    define s where "s = binade x - 52"
    define p where "p = pow2 s"
    have p: "0 < p" by (simp add: p_def pow2_pos)
    have "pow2 (binade x) = pow2 (s + 52)" by (simp add: s_def)
    also have "\<dots> = p * 2 ^ 52" by (simp only: pow2_add pow2_52 p_def)
    finally have low: "p * 2 ^ 52 \<le> \<bar>x\<bar>" using binade_lower[OF False] by simp
    have "fl64 x - x = (of_int (round_even (x / p)) - x / p) * p"
      using False p by (simp add: fl64_def s_def p_def field_simps)
    then have "\<bar>fl64 x - x\<bar> = \<bar>of_int (round_even (x / p)) - x / p\<bar> * p"
      using p by (simp add: abs_mult)
    also have "\<dots> \<le> (1 / 2) * p"
      using round_even_error[of "x / p"] p by (intro mult_right_mono) simp_all
    also have "\<dots> \<le> \<bar>x\<bar> / 2 ^ 53" using low by simp
    finally show ?thesis .
  qed
qed

text \<open>\<open>binade x\<close> is the exponent of \<open>x\<close>: the lower bound is above, the upper one here.\<close>

lemma binade_upper:
  assumes "x \<noteq> 0"
  shows "\<bar>x\<bar> < pow2 (binade x + 1)"
proof (cases "1 \<le> \<bar>x\<bar>")
  case True
  define n where "n = \<lfloor>\<bar>x\<bar>\<rfloor>"
  have n: "0 < n" using True by (simp add: n_def)
  have b: "0 < bitlen n" using n by (simp add: bitlen_alt_def)
  have "n < 2 ^ nat (bitlen n)" using bitlen_bounds[OF n] by simp
  then have "n + 1 \<le> 2 ^ nat (bitlen n)" by simp
  then have "(of_int (n + 1) :: real) \<le> of_int (2 ^ nat (bitlen n))" by (simp only: of_int_le_iff)
  then have c: "(of_int n :: real) + 1 \<le> 2 ^ nat (bitlen n)" by simp
  have "\<bar>x\<bar> < of_int n + 1" unfolding n_def by linarith
  with c have "\<bar>x\<bar> < 2 ^ nat (bitlen n)" by linarith
  then show ?thesis using True b by (simp add: binade_def pow2_def n_def)
next
  case False
  define m where "m = \<lceil>1 / \<bar>x\<bar>\<rceil> - 1"
  have x: "0 < \<bar>x\<bar>" "\<bar>x\<bar> < 1" using assms False by simp_all
  then have "1 < 1 / \<bar>x\<bar>" by simp
  then have m: "0 < m" unfolding m_def by linarith
  have bl: "0 < bitlen m" using m by (simp add: bitlen_alt_def)
  have "(2::int) ^ nat (bitlen m - 1) \<le> m" using bitlen_bounds[OF m] by simp
  then have "(of_int ((2::int) ^ nat (bitlen m - 1)) :: real) \<le> of_int m"
    by (simp only: of_int_le_iff)
  then have c: "(2::real) ^ nat (bitlen m - 1) \<le> of_int m" by simp
  have "of_int m < 1 / \<bar>x\<bar>" unfolding m_def by linarith
  with c have "2 ^ nat (bitlen m - 1) < 1 / \<bar>x\<bar>" by linarith
  then have "2 ^ nat (bitlen m - 1) * \<bar>x\<bar> < 1" using x(1) by (simp add: pos_less_divide_eq)
  then have d: "\<bar>x\<bar> < 1 / 2 ^ nat (bitlen m - 1)" by (simp add: pos_less_divide_eq mult.commute)
  have e: "nat (- (- bitlen m + 1)) = nat (bitlen m - 1)" by simp
  show ?thesis
  proof (cases "bitlen m = 1")
    case True
    with d show ?thesis using False by (simp add: binade_def pow2_def m_def)
  next
    case ne: False
    with bl have "\<not> 0 \<le> - bitlen m + 1" by simp
    with d e show ?thesis using False by (simp add: binade_def pow2_def m_def)
  qed
qed

text \<open>What a rounding of that relative error keeps: bounds, sign and zero.\<close>

lemma rounding_bounds:
  assumes "standard_rounding rnd" and "0 \<le> x"
  shows "x * (1 - 1 / 2 ^ 53) \<le> rnd x" and "rnd x \<le> x * (1 + 1 / 2 ^ 53)"
proof -
  have "\<bar>rnd x - x\<bar> \<le> \<bar>x\<bar> / 2 ^ 53"
    using assms(1) unfolding standard_rounding_def by blast
  then have "\<bar>rnd x - x\<bar> \<le> x / 2 ^ 53" using assms(2) by simp
  then have "x - rnd x \<le> x / 2 ^ 53" and "rnd x - x \<le> x / 2 ^ 53" by linarith+
  then show "x * (1 - 1 / 2 ^ 53) \<le> rnd x" and "rnd x \<le> x * (1 + 1 / 2 ^ 53)"
    by (simp_all add: algebra_simps)
qed

lemma rounding_nonneg:
  assumes "standard_rounding rnd" and "0 \<le> x"
  shows "0 \<le> rnd x"
proof -
  have "0 \<le> x * (1 - 1 / 2 ^ 53)" using assms(2) by (intro mult_nonneg_nonneg) simp_all
  with rounding_bounds(1)[OF assms] show ?thesis by linarith
qed

lemma rounding_pos:
  assumes "standard_rounding rnd" and "0 < x"
  shows "0 < rnd x"
proof -
  have "0 < x * (1 - 1 / 2 ^ 53)" using assms(2) by (intro mult_pos_pos) simp_all
  with rounding_bounds(1)[of rnd x] assms show ?thesis by simp
qed

lemma exact_is_standard: "\<forall>x. rnd x = x \<Longrightarrow> standard_rounding rnd"
  by (simp add: standard_rounding_def)

lemma rounding_zero: "standard_rounding rnd \<Longrightarrow> rnd 0 = 0"
  unfolding standard_rounding_def
proof -
  assume "\<forall>x. \<bar>rnd x - x\<bar> \<le> \<bar>x\<bar> / 2 ^ 53"
  then have "\<bar>rnd 0 - 0\<bar> \<le> \<bar>0\<bar> / 2 ^ 53" by (rule spec)
  then show "rnd 0 = 0" by simp
qed

section \<open>Facts about the resampler\<close>

lemma collect_length:
  "collect f xs = Inr ys \<Longrightarrow> length ys = length xs"
  by (induction xs arbitrary: ys) (auto split: sum.splits)

lemma collect_total:
  "\<forall>x \<in> set xs. \<exists>y. f x = Inr y \<Longrightarrow> \<exists>ys. collect f xs = Inr ys"
  by (induction xs) (auto split: sum.splits)

lemma collect_nth:
  "collect f xs = Inr ys \<Longrightarrow> k < length xs \<Longrightarrow> f (xs ! k) = Inr (ys ! k)"
proof (induction xs arbitrary: ys k)
  case Nil
  then show ?case by simp
next
  case (Cons x xs)
  from Cons.prems(1) obtain y ys' where y: "f x = Inr y" and ys': "collect f xs = Inr ys'"
    and ys: "ys = y # ys'"
    by (auto split: sum.splits)
  show ?case
  proof (cases k)
    case 0
    with y ys show ?thesis by simp
  next
    case (Suc m)
    with Cons.prems(2) have "m < length xs" by simp
    from Cons.IH[OF ys' this] Suc ys show ?thesis by simp
  qed
qed

lemma py_int_nonneg: "0 \<le> x \<Longrightarrow> py_int x = \<lfloor>x\<rfloor>"
  by (simp add: py_int_def)

text \<open>
  The index \<open>idx\<close> of iteration \<open>i\<close> is inside the buffer. In exact arithmetic
  \<open>i + 1 \<le> len / ratio\<close> gives \<open>i * ratio < len\<close>.
\<close>

lemma interp_index_exact:
  assumes "\<forall>x. rnd x = x" and "0 < ratio" and "0 \<le> i"
    and "i < py_int (rnd (real (length samples) / ratio))"
  shows "0 \<le> py_int (rnd (of_int i * ratio))
     \<and> py_int (rnd (of_int i * ratio)) < int (length samples)"
proof -
  let ?q = "real (length samples) / ratio"
  have q0: "0 \<le> ?q" using assms(2) by simp
  have "of_int (i + 1) \<le> (of_int \<lfloor>?q\<rfloor> :: real)"
    using assms(1,4) q0 by (simp add: py_int_nonneg)
  also have "\<dots> \<le> ?q" by simp
  finally have "of_int (i + 1) * ratio \<le> real (length samples)"
    using assms(2) by (simp add: pos_le_divide_eq)
  then have lt: "of_int i * ratio < real (length samples)"
    using assms(2) by (simp add: algebra_simps)
  have pos: "0 \<le> of_int i * ratio" using assms(2,3) by simp
  have "\<lfloor>of_int i * ratio\<rfloor> < int (length samples)"
    using lt by (simp add: floor_less_iff)
  moreover have "0 \<le> \<lfloor>of_int i * ratio\<rfloor>" using pos by simp
  ultimately show ?thesis using pos assms(1) by (simp add: py_int_nonneg)
qed

text \<open>
  With rounded operations \<open>idx\<close> can pass the end only when the rounding error of
  \<open>len / ratio\<close> reaches one, which the bound on the length excludes.
\<close>

lemma interp_index_rounded:
  assumes sr: "standard_rounding rnd"
    and r0: "0 < r0" and ratio: "ratio = rnd r0"
    and bound: "real (length samples) \<le> 2 ^ 51 * r0"
    and i0: "0 \<le> i"
    and iN: "i < py_int (rnd (real (length samples) / ratio))"
  shows "0 \<le> py_int (rnd (of_int i * ratio))
     \<and> py_int (rnd (of_int i * ratio)) < int (length samples)"
proof -
  define a where "a = real (length samples)"
  define t where "t = of_int i * ratio"
  define q0 where "q0 = a / ratio"
  have rp: "0 < ratio" unfolding ratio using sr r0 by (rule rounding_pos)
  have rl: "r0 * (1 - 1 / 2 ^ 53) \<le> ratio"
    unfolding ratio using sr r0 by (intro rounding_bounds(1)) simp_all
  have a0: "0 \<le> a" by (simp add: a_def)
  have q00: "0 \<le> q0" using a0 rp by (simp add: q0_def)
  have qr: "q0 * ratio = a" using rp by (simp add: q0_def)
  have qu: "rnd q0 \<le> q0 * (1 + 1 / 2 ^ 53)" using sr q00 by (rule rounding_bounds(2))
  have qn: "0 \<le> rnd q0" using sr q00 by (rule rounding_nonneg)
  have "of_int (i + 1) \<le> (of_int \<lfloor>rnd q0\<rfloor> :: real)"
    using iN qn unfolding q0_def a_def by (simp add: py_int_nonneg)
  also have "\<dots> \<le> rnd q0" by simp
  finally have "of_int (i + 1) \<le> q0 * (1 + 1 / 2 ^ 53)" using qu by linarith
  then have "of_int (i + 1) * ratio \<le> q0 * (1 + 1 / 2 ^ 53) * ratio"
    using rp by (intro mult_right_mono) simp_all
  also have "\<dots> = a * (1 + 1 / 2 ^ 53)" using qr by (simp add: algebra_simps)
  finally have f3: "t + ratio \<le> a * (1 + 1 / 2 ^ 53)" by (simp add: t_def algebra_simps)
  have t0: "0 \<le> t" using i0 rp by (simp add: t_def)
  have f4: "rnd t \<le> t * (1 + 1 / 2 ^ 53)" using sr t0 by (rule rounding_bounds(2))
  have p0: "0 \<le> rnd t" using sr t0 by (rule rounding_nonneg)
  have bound': "a \<le> 2 ^ 51 * r0" using bound by (simp add: a_def)
  have "rnd t < a"
    using f3 f4 rl bound' a0 r0 t0 by (simp add: algebra_simps)
  then have "\<lfloor>rnd t\<rfloor> < int (length samples)" by (simp add: floor_less_iff a_def)
  moreover have "0 \<le> \<lfloor>rnd t\<rfloor>" using p0 by simp
  ultimately show ?thesis using p0 by (simp add: py_int_nonneg t_def)
qed

lemma interp_at_in_range:
  assumes "0 \<le> py_int (rnd (of_int i * ratio))"
    and "py_int (rnd (of_int i * ratio)) < int (length samples)"
  shows "(\<exists>v. interp_at rnd samples ratio i = Inr v)
     \<and> (int (length samples) \<le> py_int (rnd (of_int i * ratio)) + 1 \<longrightarrow>
          interp_at rnd samples ratio i = Inr (samples ! nat (py_int (rnd (of_int i * ratio)))))"
  using assms by (simp add: interp_at_def Let_def py_get_def)

lemma downsample_unfold:
  assumes "original_rate \<noteq> target_rate" and "target_rate \<noteq> 0"
    and "rnd (of_int original_rate / of_int target_rate) \<noteq> 0"
  shows "downsample_to_48k rnd samples original_rate target_rate =
     collect (interp_at rnd samples (rnd (of_int original_rate / of_int target_rate)))
       [0..py_int (rnd (real (length samples) / rnd (of_int original_rate / of_int target_rate))) - 1]"
  using assms by (simp add: downsample_to_48k_def py_truediv_def Let_def)

text \<open>
  The roundings the facts below admit: the exact one, for every buffer, and one of
  relative error \<open>2 ^ -53\<close>, for a buffer of at most \<open>2 ^ 51 * ratio\<close> samples.
\<close>

lemma downsample_index:
  assumes "0 < original_rate" and "0 < target_rate"
    and "(\<forall>x. rnd x = x)
         \<or> (standard_rounding rnd \<and> int (length samples) * target_rate \<le> 2 ^ 51 * original_rate)"
    and "0 \<le> i"
    and "i < py_int (rnd (real (length samples) / rnd (of_int original_rate / of_int target_rate)))"
  shows "0 \<le> py_int (rnd (of_int i * rnd (of_int original_rate / of_int target_rate)))
     \<and> py_int (rnd (of_int i * rnd (of_int original_rate / of_int target_rate)))
           < int (length samples)"
  using assms(3)
proof
  assume e: "\<forall>x. rnd x = x"
  have "0 < rnd (of_int original_rate / of_int target_rate)"
    using assms(1,2) e by simp
  from interp_index_exact[OF e this assms(4,5)] show ?thesis .
next
  assume r: "standard_rounding rnd \<and> int (length samples) * target_rate \<le> 2 ^ 51 * original_rate"
  have r0: "(0::real) < of_int original_rate / of_int target_rate" using assms(1,2) by simp
  have "real_of_int (int (length samples) * target_rate) \<le> real_of_int (2 ^ 51 * original_rate)"
    using r by (simp only: of_int_le_iff)
  then have "real (length samples) * of_int target_rate \<le> 2 ^ 51 * of_int original_rate"
    by simp
  then have b: "real (length samples) \<le> 2 ^ 51 * (of_int original_rate / of_int target_rate)"
    using assms(2) by (simp add: pos_le_divide_eq)
  from interp_index_rounded[OF conjunct1[OF r] r0 refl b assms(4,5)] show ?thesis .
qed

lemma admitted_ratio_pos:
  assumes "0 < original_rate" and "0 < target_rate"
    and "(\<forall>x. rnd x = x)
         \<or> (standard_rounding rnd \<and> int (length samples) * target_rate \<le> 2 ^ 51 * original_rate)"
  shows "0 < rnd (of_int original_rate / of_int target_rate)"
proof -
  have sr: "standard_rounding rnd" using assms(3) exact_is_standard by blast
  have "(0::real) < of_int original_rate / of_int target_rate" using assms(1,2) by simp
  with sr show ?thesis by (rule rounding_pos)
qed

lemma downsample_total:
  assumes "0 < original_rate" and "0 < target_rate" and "original_rate \<noteq> target_rate"
    and "(\<forall>x. rnd x = x)
         \<or> (standard_rounding rnd \<and> int (length samples) * target_rate \<le> 2 ^ 51 * original_rate)"
  shows "\<exists>out. downsample_to_48k rnd samples original_rate target_rate = Inr out
     \<and> int (length out) =
         py_int (rnd (real (length samples) / rnd (of_int original_rate / of_int target_rate)))
     \<and> (\<forall>i. 0 \<le> i \<and> i < int (length out) \<longrightarrow>
           interp_at rnd samples (rnd (of_int original_rate / of_int target_rate)) i
             = Inr (out ! nat i))"
proof -
  let ?ratio = "rnd (of_int original_rate / of_int target_rate)"
  let ?n = "py_int (rnd (real (length samples) / ?ratio))"
  have sr: "standard_rounding rnd" using assms(4) exact_is_standard by blast
  have rp: "0 < ?ratio" using assms(1,2,4) by (rule admitted_ratio_pos)
  have "0 \<le> real (length samples) / ?ratio" using rp by simp
  with sr have q: "0 \<le> rnd (real (length samples) / ?ratio)" by (rule rounding_nonneg)
  then have n0: "0 \<le> ?n" by (simp only: py_int_nonneg zero_le_floor of_int_0)
  have "\<forall>i \<in> set [0..?n - 1]. \<exists>y. interp_at rnd samples ?ratio i = Inr y"
  proof
    fix i assume "i \<in> set [0..?n - 1]"
    then have i: "0 \<le> i" "i < ?n" by auto
    from downsample_index[OF assms(1,2,4) i]
    have r: "0 \<le> py_int (rnd (of_int i * ?ratio))"
      "py_int (rnd (of_int i * ?ratio)) < int (length samples)"
      by blast+
    from interp_at_in_range[of rnd i "?ratio" samples, OF r]
    show "\<exists>y. interp_at rnd samples ?ratio i = Inr y" by (rule conjunct1)
  qed
  from collect_total[OF this] obtain out
    where out: "collect (interp_at rnd samples ?ratio) [0..?n - 1] = Inr out" by blast
  have "length out = length [0..?n - 1]" using out by (rule collect_length)
  also have "int \<dots> = ?n" using n0 by simp
  finally have l: "int (length out) = ?n" .
  have rn: "?ratio \<noteq> 0" using rp by simp
  have tn: "target_rate \<noteq> 0" using assms(2) by simp
  have d: "downsample_to_48k rnd samples original_rate target_rate = Inr out"
    by (simp only: downsample_unfold[of original_rate target_rate rnd samples, OF assms(3) tn rn] out)
  have "\<forall>i. 0 \<le> i \<and> i < int (length out) \<longrightarrow> interp_at rnd samples ?ratio i = Inr (out ! nat i)"
  proof (intro allI impI)
    fix i assume i: "0 \<le> i \<and> i < int (length out)"
    then have k: "nat i < length [0..?n - 1]" using l by simp
    have "[0..?n - 1] ! nat i = i" using i l by simp
    with collect_nth[OF out k] show "interp_at rnd samples ?ratio i = Inr (out ! nat i)"
      by (simp only:)
  qed
  with d l show ?thesis by (intro exI[of _ out] conjI)
qed

text \<open>
  The rounded length \<^verbatim>\<open>len(samples) / ratio\<close> is within one of the exact quotient of the
  length by the exact ratio, and so are their floors.
\<close>

lemma floor_near:
  fixes x y :: real
  assumes "\<bar>x - y\<bar> < 1"
  shows "\<bar>\<lfloor>x\<rfloor> - \<lfloor>y\<rfloor>\<bar> \<le> 1"
proof -
  have "of_int \<lfloor>x\<rfloor> \<le> x" and "x < of_int \<lfloor>x\<rfloor> + 1"
    and "of_int \<lfloor>y\<rfloor> \<le> y" and "y < of_int \<lfloor>y\<rfloor> + 1" by linarith+
  with assms have "(of_int \<lfloor>x\<rfloor> :: real) < of_int \<lfloor>y\<rfloor> + 2"
    and "(of_int \<lfloor>y\<rfloor> :: real) < of_int \<lfloor>x\<rfloor> + 2" by linarith+
  then have "\<lfloor>x\<rfloor> < \<lfloor>y\<rfloor> + 2" and "\<lfloor>y\<rfloor> < \<lfloor>x\<rfloor> + 2"
    by linarith+
  then show ?thesis by linarith
qed

lemma near_arith:
  fixes q0 E R :: real
  assumes lo: "q0 * (1 - 1 / 2 ^ 53) \<le> E"
    and qu: "R \<le> q0 * (1 + 1 / 2 ^ 53)" and ql: "q0 * (1 - 1 / 2 ^ 53) \<le> R"
    and hi: "E \<le> q0 * (1 + 1 / 2 ^ 53)"
    and Eb: "E \<le> 2 ^ 51" and q00: "0 \<le> q0"
  shows "\<bar>R - E\<bar> < 1"
proof -
  have lo': "q0 - q0 / 9007199254740992 \<le> E" using lo by (simp add: algebra_simps)
  have hi': "E \<le> q0 + q0 / 9007199254740992" using hi by (simp add: algebra_simps)
  have qu': "R \<le> q0 + q0 / 9007199254740992" using qu by (simp add: algebra_simps)
  have ql': "q0 - q0 / 9007199254740992 \<le> R" using ql by (simp add: algebra_simps)
  have Eb': "E \<le> 2251799813685248" using Eb by simp
  show ?thesis using lo' hi' qu' ql' Eb' q00 by linarith
qed

lemma rounded_length_near:
  assumes sr: "standard_rounding rnd" and r0: "0 < r0" and a0: "0 \<le> a"
    and bound: "a \<le> 2 ^ 51 * r0"
  shows "\<bar>rnd (a / rnd r0) - a / r0\<bar> < 1"
proof -
  define r where "r = rnd r0"
  define q0 where "q0 = a / r"
  define E where "E = a / r0"
  have rp: "0 < r" unfolding r_def using sr r0 by (rule rounding_pos)
  have rl: "r0 * (1 - 1 / 2 ^ 53) \<le> r" and ru: "r \<le> r0 * (1 + 1 / 2 ^ 53)"
    unfolding r_def using rounding_bounds[OF sr less_imp_le[OF r0]] by blast+
  have q00: "0 \<le> q0" using a0 rp by (simp add: q0_def)
  have E0: "0 \<le> E" using a0 r0 by (simp add: E_def)
  have qr: "q0 * r = a" using rp by (simp add: q0_def)
  have Er: "E * r0 = a" using r0 by (simp add: E_def)
  have "E * r0 \<le> 2 ^ 51 * r0" using bound by (simp only: Er)
  then have Eb: "E \<le> 2 ^ 51" using r0 by (simp only: mult_le_cancel_right_pos)
  have "q0 * (r0 * (1 - 1 / 2 ^ 53)) \<le> q0 * r" using rl q00 by (rule mult_left_mono)
  also have "\<dots> = E * r0" by (simp only: qr Er)
  finally have "q0 * (1 - 1 / 2 ^ 53) * r0 \<le> E * r0" by (simp only: mult_ac)
  then have lo: "q0 * (1 - 1 / 2 ^ 53) \<le> E" using r0 by (simp only: mult_le_cancel_right_pos)
  have "E * r0 = q0 * r" by (simp only: qr Er)
  also have "\<dots> \<le> q0 * (r0 * (1 + 1 / 2 ^ 53))" using ru q00 by (rule mult_left_mono)
  finally have "E * r0 \<le> q0 * (1 + 1 / 2 ^ 53) * r0" by (simp only: mult_ac)
  then have hi: "E \<le> q0 * (1 + 1 / 2 ^ 53)" using r0 by (simp only: mult_le_cancel_right_pos)
  have qu: "rnd q0 \<le> q0 * (1 + 1 / 2 ^ 53)" and ql: "q0 * (1 - 1 / 2 ^ 53) \<le> rnd q0"
    using rounding_bounds[OF sr q00] by blast+
  have "\<bar>rnd q0 - E\<bar> < 1" using lo qu ql hi Eb q00 by (rule near_arith)
  then show ?thesis by (simp only: q0_def E_def r_def)
qed

lemma rounded_length:
  assumes sr: "standard_rounding rnd" and o: "0 < original_rate" and t: "0 < target_rate"
    and bound: "int (length samples) * target_rate \<le> 2 ^ 51 * original_rate"
  shows "\<bar>py_int (rnd (real (length samples) / rnd (of_int original_rate / of_int target_rate)))
      - \<lfloor>real (length samples) * of_int target_rate / of_int original_rate\<rfloor>\<bar> \<le> 1"
proof -
  let ?r0 = "of_int original_rate / of_int target_rate :: real"
  let ?a = "real (length samples)"
  have r0: "0 < ?r0" using o t by simp
  have "real_of_int (int (length samples) * target_rate) \<le> real_of_int (2 ^ 51 * original_rate)"
    using bound by (simp only: of_int_le_iff)
  then have "?a * of_int target_rate \<le> 2 ^ 51 * of_int original_rate" by simp
  then have b: "?a \<le> 2 ^ 51 * ?r0" using t by (simp add: pos_le_divide_eq)
  have a0: "0 \<le> ?a" by simp
  have near: "\<bar>rnd (?a / rnd ?r0) - ?a / ?r0\<bar> < 1" using sr r0 a0 b by (rule rounded_length_near)
  have "0 < rnd ?r0" using sr r0 by (rule rounding_pos)
  then have "0 \<le> ?a / rnd ?r0" by simp
  with sr have "0 \<le> rnd (?a / rnd ?r0)" by (rule rounding_nonneg)
  then have p: "py_int (rnd (?a / rnd ?r0)) = \<lfloor>rnd (?a / rnd ?r0)\<rfloor>" by (rule py_int_nonneg)
  have e: "?a / ?r0 = ?a * of_int target_rate / of_int original_rate" by simp
  from floor_near[OF near] show ?thesis unfolding p e .
qed

section \<open>Resampler length and totality\<close>

text \<open>
  Claim C6. For positive rates that differ, a rounding of relative error at most
  \<open>2 ^ -53\<close> and a buffer of at most \<open>2 ^ 51 * original_rate / target_rate\<close> samples,
  \<^verbatim>\<open>downsample_to_48k\<close> returns a buffer whose length is \<^verbatim>\<open>int(len(samples) / ratio)\<close>
  with \<^verbatim>\<open>ratio = original_rate / target_rate\<close>, both quotients rounded. That length differs
  from the floor of \<open>len(samples) * target_rate / original_rate\<close> by at most one. The
  difference is reached: with binary64 rounding 48000 samples at 48000 Hz give 44099
  samples at 44100 Hz, and the floor is 44100.
\<close>

theorem resample_length:
  assumes "0 < original_rate" and "0 < target_rate" and "original_rate \<noteq> target_rate"
    and "standard_rounding rnd"
    and "int (length samples) * target_rate \<le> 2 ^ 51 * original_rate"
  shows "\<exists>out. downsample_to_48k rnd samples original_rate target_rate = Inr out
     \<and> int (length out) =
         \<lfloor>rnd (real (length samples) / rnd (of_int original_rate / of_int target_rate))\<rfloor>
     \<and> \<bar>int (length out)
          - \<lfloor>real (length samples) * of_int target_rate / of_int original_rate\<rfloor>\<bar> \<le> 1"
proof -
  let ?q = "rnd (real (length samples) / rnd (of_int original_rate / of_int target_rate))"
  have adm: "(\<forall>x. rnd x = x)
     \<or> (standard_rounding rnd \<and> int (length samples) * target_rate \<le> 2 ^ 51 * original_rate)"
    using assms(4,5) by simp
  from downsample_total[OF assms(1,2,3) adm] obtain out
    where out: "downsample_to_48k rnd samples original_rate target_rate = Inr out"
      and len: "int (length out) = py_int ?q"
    by blast
  have "0 < rnd (of_int original_rate / of_int target_rate)"
    using assms(1,2) adm by (rule admitted_ratio_pos)
  then have "0 \<le> real (length samples) / rnd (of_int original_rate / of_int target_rate)"
    by simp
  with assms(4) have "0 \<le> ?q" by (rule rounding_nonneg)
  then have fl: "py_int ?q = \<lfloor>?q\<rfloor>" by (rule py_int_nonneg)
  note tol = rounded_length[OF assms(4,1,2,5)]
  from out len fl tol show ?thesis by (intro exI[of _ out] conjI) simp_all
qed

theorem resample_length_witness:
  "standard_rounding fl64
   \<and> int (length (replicate 48000 (0::real))) * 44100 \<le> 2 ^ 51 * 48000
   \<and> (\<exists>out. downsample_to_48k fl64 (replicate 48000 0) 48000 44100 = Inr out
        \<and> int (length out) = 44099)
   \<and> \<lfloor>real (length (replicate 48000 (0::real))) * of_int 44100 / of_int 48000\<rfloor> = (44100::int)"
proof -
  have h: "(0::int) < 48000" "(0::int) < 44100" "(48000::int) \<noteq> 44100" by simp_all
  have b: "int (length (replicate 48000 (0::real))) * 44100 \<le> 2 ^ 51 * 48000" by simp
  have q: "\<lfloor>fl64 (48000 / fl64 (48000 / 44100))\<rfloor> = 44099" by code_simp
  have f: "\<lfloor>real (length (replicate 48000 (0::real))) * of_int 44100 / of_int 48000\<rfloor> = (44100::int)"
    by simp
  from resample_length[OF h fl64_standard b] q
  have ex: "\<exists>out. downsample_to_48k fl64 (replicate 48000 0) 48000 44100 = Inr out
        \<and> int (length out) = 44099"
    by simp blast
  show ?thesis by (rule conjI fl64_standard b ex f)+
qed

text \<open>
  Claim C9. For positive rates \<^verbatim>\<open>downsample_to_48k\<close> returns a buffer for every input,
  the empty one included, which gives the empty buffer. Every index \<open>idx\<close> the loop reads
  is inside the buffer, and where \<open>idx + 1\<close> is past the last sample the output is
  \<^verbatim>\<open>samples[idx]\<close>. This holds in exact arithmetic for every buffer, and under a
  rounding of relative error \<open>2 ^ -53\<close> for every buffer of at most
  \<open>2 ^ 51 * original_rate / target_rate\<close> samples.
\<close>

theorem resample_total:
  assumes "0 < original_rate" and "0 < target_rate"
    and "(\<forall>x. rnd x = x)
         \<or> (standard_rounding rnd \<and> int (length samples) * target_rate \<le> 2 ^ 51 * original_rate)"
  shows "\<exists>out. downsample_to_48k rnd samples original_rate target_rate = Inr out
     \<and> (samples = [] \<longrightarrow> out = [])
     \<and> (original_rate \<noteq> target_rate \<longrightarrow>
          (\<forall>i. 0 \<le> i \<and> i < int (length out) \<longrightarrow>
             0 \<le> py_int (rnd (of_int i * rnd (of_int original_rate / of_int target_rate)))
             \<and> py_int (rnd (of_int i * rnd (of_int original_rate / of_int target_rate)))
                  < int (length samples)
             \<and> (int (length samples)
                    \<le> py_int (rnd (of_int i * rnd (of_int original_rate / of_int target_rate))) + 1
                  \<longrightarrow> out ! nat i =
                       samples ! nat (py_int (rnd (of_int i * rnd (of_int original_rate / of_int target_rate)))))))"
proof (cases "original_rate = target_rate")
  case True
  then show ?thesis by (simp add: downsample_to_48k_def)
next
  case False
  let ?ratio = "rnd (of_int original_rate / of_int target_rate)"
  let ?idx = "\<lambda>i. py_int (rnd (of_int i * ?ratio))"
  have sr: "standard_rounding rnd" using assms(3) exact_is_standard by blast
  from downsample_total[OF assms(1,2) False assms(3)] obtain out
    where out: "downsample_to_48k rnd samples original_rate target_rate = Inr out"
      and len: "int (length out) = py_int (rnd (real (length samples) / ?ratio))"
      and nth: "\<forall>i. 0 \<le> i \<and> i < int (length out) \<longrightarrow>
                  interp_at rnd samples ?ratio i = Inr (out ! nat i)"
    by blast
  have empty: "samples = [] \<longrightarrow> out = []"
  proof
    assume "samples = []"
    then have "int (length out) = py_int (rnd 0)" using len by simp
    then show "out = []" by (simp add: rounding_zero[OF sr] py_int_def)
  qed
  have reads: "\<forall>i. 0 \<le> i \<and> i < int (length out) \<longrightarrow>
             0 \<le> ?idx i \<and> ?idx i < int (length samples)
             \<and> (int (length samples) \<le> ?idx i + 1 \<longrightarrow> out ! nat i = samples ! nat (?idx i))"
  proof (intro allI impI)
    fix i assume i: "0 \<le> i \<and> i < int (length out)"
    then have i0: "0 \<le> i" and il: "i < py_int (rnd (real (length samples) / ?ratio))"
      using len by simp_all
    from downsample_index[OF assms(1,2,3) i0 il]
    have r: "0 \<le> ?idx i" "?idx i < int (length samples)" by blast+
    from nth i have n: "interp_at rnd samples ?ratio i = Inr (out ! nat i)" by blast
    have "int (length samples) \<le> ?idx i + 1 \<longrightarrow> out ! nat i = samples ! nat (?idx i)"
    proof
      assume "int (length samples) \<le> ?idx i + 1"
      with interp_at_in_range[of rnd i "?ratio" samples, OF r]
      have "interp_at rnd samples ?ratio i = Inr (samples ! nat (?idx i))" by blast
      with n show "out ! nat i = samples ! nat (?idx i)" by simp
    qed
    with r show "0 \<le> ?idx i \<and> ?idx i < int (length samples)
             \<and> (int (length samples) \<le> ?idx i + 1 \<longrightarrow> out ! nat i = samples ! nat (?idx i))"
      by blast
  qed
  from out empty reads show ?thesis by blast
qed

theorem resample_total_witness:
  "standard_rounding fl64
   \<and> int (length ([] :: real list)) * 2 \<le> 2 ^ 51 * 1
   \<and> int (length [1, 2, 3, 4 :: real]) * 2 \<le> 2 ^ 51 * 1
   \<and> downsample_to_48k fl64 [] 1 2 = Inr []
   \<and> downsample_to_48k fl64 [1, 2, 3, 4] 1 2 = Inr [1, 3 / 2, 2, 5 / 2, 3, 7 / 2, 4, 4]
   \<and> (0::int) \<le> 7 \<and> (7::int) < int (length [1, 3 / 2, 2, 5 / 2, 3, 7 / 2, 4, 4 :: real])
   \<and> py_int (fl64 (of_int 7 * fl64 (of_int 1 / of_int 2))) = 3
   \<and> int (length [1, 2, 3, 4 :: real]) \<le> 3 + 1
   \<and> [1, 3 / 2, 2, 5 / 2, 3, 7 / 2, 4, 4 :: real] ! nat 7 = [1, 2, 3, 4] ! nat 3"
proof -
  have h: "(0::int) < 1" "(0::int) < 2" by simp_all
  have ne: "(1::int) \<noteq> 2" by simp
  have b0: "int (length ([] :: real list)) * 2 \<le> 2 ^ 51 * 1" by simp
  have b1: "int (length [1, 2, 3, 4 :: real]) * 2 \<le> 2 ^ 51 * 1" by simp
  have a0: "(\<forall>x. fl64 x = x)
     \<or> (standard_rounding fl64 \<and> int (length ([] :: real list)) * 2 \<le> 2 ^ 51 * 1)"
    using fl64_standard b0 by blast
  have a1: "(\<forall>x. fl64 x = x)
     \<or> (standard_rounding fl64 \<and> int (length [1, 2, 3, 4 :: real]) * 2 \<le> 2 ^ 51 * 1)"
    using fl64_standard b1 by blast
  from resample_total[OF h a0] have e0: "downsample_to_48k fl64 [] 1 2 = Inr []" by auto
  have e1: "downsample_to_48k fl64 [1, 2, 3, 4] 1 2 = Inr [1, 3 / 2, 2, 5 / 2, 3, 7 / 2, 4, 4]"
    by code_simp
  have i: "(0::int) \<le> 7" "(7::int) < int (length [1, 3 / 2, 2, 5 / 2, 3, 7 / 2, 4, 4 :: real])"
    by simp_all
  have p: "py_int (fl64 (of_int 7 * fl64 (of_int 1 / of_int 2))) = 3" by code_simp
  have c: "int (length [1, 2, 3, 4 :: real]) \<le> 3 + 1" by simp
  from resample_total[OF h a1] e1 ne
  have "\<forall>i. 0 \<le> i \<and> i < int (length [1, 3 / 2, 2, 5 / 2, 3, 7 / 2, 4, 4 :: real]) \<longrightarrow>
          (int (length [1, 2, 3, 4 :: real])
              \<le> py_int (fl64 (of_int i * fl64 (of_int 1 / of_int 2))) + 1
            \<longrightarrow> [1, 3 / 2, 2, 5 / 2, 3, 7 / 2, 4, 4 :: real] ! nat i =
                  [1, 2, 3, 4] ! nat (py_int (fl64 (of_int i * fl64 (of_int 1 / of_int 2)))))"
    by auto
  with i p c have d: "[1, 3 / 2, 2, 5 / 2, 3, 7 / 2, 4, 4 :: real] ! nat 7 = [1, 2, 3, 4] ! nat 3"
    by metis
  show ?thesis by (rule conjI fl64_standard b0 b1 e0 e1 i p c d)+
qed

section \<open>Facts about decoding and extraction\<close>

lemma py_slice_to_prefix:
  assumes "0 \<le> n"
  shows "py_slice_to xs n = take (nat n) xs"
  using assms by (auto simp: py_slice_to_def slice_bound_def Let_def min_def)

lemma py_get_error: "py_get xs i = Inl e \<Longrightarrow> e = IndexError"
  by (auto simp: py_get_def split: if_splits)

lemma py_truediv_error: "py_truediv a b = Inl e \<Longrightarrow> e = ZeroDivisionError"
  by (auto simp: py_truediv_def split: if_splits)

lemma max_abs_error: "max_abs xs = Inl e \<Longrightarrow> e = MaxOfEmptySequence"
  by (auto simp: max_abs_def split: list.splits)

lemma struct_unpack_h_error: "struct_unpack_h n raw = Inl e \<Longrightarrow> e = StructError"
  by (auto simp: struct_unpack_h_def split: if_splits)

lemma rising_error: "rising samples i = Inl e \<Longrightarrow> e = IndexError"
  by (auto simp: rising_def split: sum.splits if_splits dest: py_get_error)

lemma zc_loop_error:
  "zc_loop samples count d idxs crossings lc = Inl e \<Longrightarrow> e = IndexError"
proof (induction idxs arbitrary: crossings lc)
  case Nil
  then show ?case by simp
next
  case (Cons i rest)
  show ?case
  proof (cases "rising samples i")
    case (Inl e')
    with Cons.prems show ?thesis by (simp add: rising_error)
  next
    case (Inr r)
    with Cons.prems show ?thesis
      by (auto split: if_splits dest: Cons.IH)
  qed
qed

lemma zc_loop_np_error:
  "zc_loop_np samples idxs crossings = Inl e \<Longrightarrow> e = IndexError"
proof (induction idxs arbitrary: crossings)
  case Nil
  then show ?case by simp
next
  case (Cons i rest)
  show ?case
  proof (cases "rising samples i")
    case (Inl e')
    with Cons.prems show ?thesis by (simp add: rising_error)
  next
    case (Inr r)
    with Cons.prems show ?thesis
      by (auto split: if_splits dest: Cons.IH)
  qed
qed

lemma find_best_loop_cycle_error:
  "find_best_loop_cycle samples start_ms rate base_freq = Inl e \<Longrightarrow>
     e = IndexError \<or> e = ZeroDivisionError"
  by (auto simp: find_best_loop_cycle_def find_zero_crossings_def Let_def
      split: sum.splits dest: py_truediv_error zc_loop_error)

lemma find_best_loop_cycle_np_error:
  "find_best_loop_cycle_np samples start_ms rate base_freq = Inl e \<Longrightarrow>
     e = IndexError \<or> e = ZeroDivisionError"
  by (auto simp: find_best_loop_cycle_np_def find_zero_crossings_np_def Let_def
      split: sum.splits dest: py_truediv_error zc_loop_np_error)

lemma collect_error:
  "collect f xs = Inl e \<Longrightarrow> \<exists>x \<in> set xs. f x = Inl e"
  by (induction xs) (auto split: sum.splits)

lemma interp_at_error: "interp_at rnd samples ratio i = Inl e \<Longrightarrow> e = IndexError"
  by (auto simp: interp_at_def Let_def split: sum.splits if_splits dest: py_get_error)

lemma downsample_error:
  "downsample_to_48k rnd samples a b = Inl e \<Longrightarrow> e = IndexError \<or> e = ZeroDivisionError"
  by (auto simp: downsample_to_48k_def Let_def split: sum.splits if_splits
      dest: py_truediv_error interp_at_error dest!: collect_error)

lemma extract_width_ok_error:
  assumes "sampwidth wav = 2" and "extract_attack_and_loop wav attack_ms loop_start_ms = Inl e"
  shows "e \<in> {StructError, MaxOfEmptySequence, ZeroDivisionError, IndexError}"
  using assms
  by (auto simp: extract_attack_and_loop_def Let_def split: sum.splits if_splits
      dest: struct_unpack_h_error max_abs_error py_truediv_error find_best_loop_cycle_error)

lemma extract_np_width_ok_error:
  assumes "sampwidth wav = 2"
    and "extract_attack_and_loop_np frombuffer wav attack_ms loop_start_ms = Inl e"
  shows "e \<in> {FrombufferError, MaxOfEmptySequence, ZeroDivisionError, IndexError}"
  using assms
  by (auto simp: extract_attack_and_loop_np_def Let_def split: sum.splits if_splits option.splits
      dest: max_abs_error py_truediv_error find_best_loop_cycle_np_error)

lemma main_width_ok_error:
  assumes "sampwidth wav = 2" and "fst (main wav out) = Inl e"
  shows "e \<in> {StructError, MaxOfEmptySequence, ZeroDivisionError, IndexError}"
  using assms
  by (auto simp: main_def split: sum.splits prod.splits
      dest: extract_width_ok_error downsample_error)

lemma extract_decodes:
  "extract_attack_and_loop
     \<lparr>nchannels = 1, sampwidth = 2, framerate = 1000, nframes = 4,
      frame_bytes = [255, 255, 1, 0, 255, 255, 1, 0]\<rparr> 2 0
   = Inr ([- (1 / 32768), 1 / 32768], [- (1 / 32768), 1 / 32768], 1000)"
  by code_simp

section \<open>Extraction properties\<close>

text \<open>
  Claim C7. The attack is the slice \<^verbatim>\<open>samples[:int(attack_ms * rate / 1000)]\<close>. For an
  attack length and a rate that are not negative it is the prefix of
  \<open>floor(attack_ms * rate / 1000)\<close> samples, and its length is the smaller of the buffer
  length and that count: a buffer shorter than the count gives a shorter slice, as a value.
\<close>

theorem attack_slice:
  "extract_attack samples attack_ms rate =
      py_slice_to samples (py_int (of_int (attack_ms * rate) / 1000))
   \<and> (0 \<le> attack_ms \<and> 0 \<le> rate \<longrightarrow>
        extract_attack samples attack_ms rate =
          take (nat \<lfloor>of_int (attack_ms * rate) / (1000 :: real)\<rfloor>) samples
        \<and> int (length (extract_attack samples attack_ms rate)) =
            min (int (length samples)) \<lfloor>of_int (attack_ms * rate) / (1000 :: real)\<rfloor>)"
proof (intro conjI impI)
  show "extract_attack samples attack_ms rate =
      py_slice_to samples (py_int (of_int (attack_ms * rate) / 1000))"
    by (simp add: extract_attack_def)
next
  assume h: "0 \<le> attack_ms \<and> 0 \<le> rate"
  then have nn: "0 \<le> (of_int (attack_ms * rate) / 1000 :: real)" by simp
  have c: "py_int (of_int (attack_ms * rate) / 1000) = \<lfloor>of_int (attack_ms * rate) / (1000 :: real)\<rfloor>"
    using nn by (simp only: py_int_def if_True)
  have f0: "0 \<le> \<lfloor>of_int (attack_ms * rate) / (1000 :: real)\<rfloor>" using nn by simp
  show t: "extract_attack samples attack_ms rate =
          take (nat \<lfloor>of_int (attack_ms * rate) / (1000 :: real)\<rfloor>) samples"
    unfolding extract_attack_def c using f0 by (rule py_slice_to_prefix)
  define n where "n = \<lfloor>of_int (attack_ms * rate) / (1000 :: real)\<rfloor>"
  have "int (length (take (nat n) samples)) = min (int (length samples)) n"
    using f0 unfolding n_def[symmetric] by (simp add: min_def) linarith
  then show "int (length (extract_attack samples attack_ms rate)) =
            min (int (length samples)) \<lfloor>of_int (attack_ms * rate) / (1000 :: real)\<rfloor>"
    unfolding t n_def .
qed

theorem attack_slice_witness:
  "(0::int) \<le> 2 \<and> (0::int) \<le> 1500
   \<and> extract_attack [1, 2, 3, 4, 5, 6] 2 1500 = [1, 2, 3]
   \<and> extract_attack [1, 2] 2 1500 = [1, 2]
   \<and> int (length (extract_attack [1, 2] 2 1500)) = min (int (length [1, 2 :: real])) 3"
proof -
  have h: "(0::int) \<le> 2 \<and> (0::int) \<le> 1500" by simp
  have f: "\<lfloor>of_int (2 * 1500) / (1000 :: real)\<rfloor> = 3" by simp
  from attack_slice[of "[1, 2, 3, 4, 5, 6]" 2 1500] h
  have "extract_attack [1, 2, 3, 4, 5, 6] 2 1500 =
          take (nat \<lfloor>of_int (2 * 1500) / (1000 :: real)\<rfloor>) [1, 2, 3, 4, 5, 6]" by blast
  then have a: "extract_attack [1, 2, 3, 4, 5, 6] 2 1500 = [1, 2, 3]"
    unfolding f by (simp add: numeral_3_eq_3)
  from attack_slice[of "[1, 2]" 2 1500] h
  have "extract_attack [1, 2] 2 1500 = take (nat \<lfloor>of_int (2 * 1500) / (1000 :: real)\<rfloor>) [1, 2]
     \<and> int (length (extract_attack [1, 2] 2 1500)) =
         min (int (length [1, 2 :: real])) \<lfloor>of_int (2 * 1500) / (1000 :: real)\<rfloor>" by blast
  then have b: "extract_attack [1, 2] 2 1500 = [1, 2]
     \<and> int (length (extract_attack [1, 2] 2 1500)) = min (int (length [1, 2 :: real])) 3"
    unfolding f by (simp add: numeral_3_eq_3)
  from h a b show ?thesis by blast
qed

text \<open>
  Claim C8. When the sample width of the input is not 2 bytes (16 bit signed), both
  extractors fail with the unsupported-width error carrying that width, and \<open>main\<close> fails
  with it and leaves the output file as it was. When the width is 2, neither the
  extractors nor \<open>main\<close> fail with an unsupported-width error.
\<close>

theorem unsupported_width:
  "(sampwidth wav \<noteq> 2 \<longrightarrow>
      extract_attack_and_loop wav attack_ms loop_start_ms =
        Inl (UnsupportedSampleWidth (sampwidth wav))
      \<and> extract_attack_and_loop_np frombuffer wav attack_ms loop_start_ms =
        Inl (UnsupportedSampleWidth (sampwidth wav))
      \<and> main wav out = (Inl (UnsupportedSampleWidth (sampwidth wav)), out))
   \<and> (sampwidth wav = 2 \<longrightarrow>
      (\<forall>w. extract_attack_and_loop wav attack_ms loop_start_ms \<noteq> Inl (UnsupportedSampleWidth w)
         \<and> extract_attack_and_loop_np frombuffer wav attack_ms loop_start_ms
             \<noteq> Inl (UnsupportedSampleWidth w)
         \<and> fst (main wav out) \<noteq> Inl (UnsupportedSampleWidth w)))"
proof (intro conjI impI allI)
  assume w: "sampwidth wav \<noteq> 2"
  show e: "extract_attack_and_loop wav attack_ms loop_start_ms =
        Inl (UnsupportedSampleWidth (sampwidth wav))" for attack_ms loop_start_ms
    using w by (simp add: extract_attack_and_loop_def Let_def)
  show "extract_attack_and_loop_np frombuffer wav attack_ms loop_start_ms =
        Inl (UnsupportedSampleWidth (sampwidth wav))"
    using w by (simp add: extract_attack_and_loop_np_def Let_def)
  show "main wav out = (Inl (UnsupportedSampleWidth (sampwidth wav)), out)"
    by (simp add: main_def e)
next
  fix w
  assume ok: "sampwidth wav = 2"
  show "extract_attack_and_loop wav attack_ms loop_start_ms \<noteq> Inl (UnsupportedSampleWidth w)"
    using extract_width_ok_error[OF ok, of attack_ms loop_start_ms "UnsupportedSampleWidth w"]
    by auto
  show "extract_attack_and_loop_np frombuffer wav attack_ms loop_start_ms
             \<noteq> Inl (UnsupportedSampleWidth w)"
    using extract_np_width_ok_error[OF ok, of frombuffer attack_ms loop_start_ms "UnsupportedSampleWidth w"]
    by auto
  show "fst (main wav out) \<noteq> Inl (UnsupportedSampleWidth w)"
    using main_width_ok_error[OF ok, of out "UnsupportedSampleWidth w"] by auto
qed

theorem unsupported_width_witness:
  "sampwidth \<lparr>nchannels = 1, sampwidth = 1, framerate = 1000, nframes = 2,
               frame_bytes = [128, 127]\<rparr> \<noteq> 2
   \<and> extract_attack_and_loop
        \<lparr>nchannels = 1, sampwidth = 1, framerate = 1000, nframes = 2,
         frame_bytes = [128, 127]\<rparr> 45 200 = Inl (UnsupportedSampleWidth 1)
   \<and> main \<lparr>nchannels = 1, sampwidth = 1, framerate = 1000, nframes = 2,
             frame_bytes = [128, 127]\<rparr>
        (Some \<lparr>k_attack_samples = [1], k_loop_samples = [0]\<rparr>)
       = (Inl (UnsupportedSampleWidth 1), Some \<lparr>k_attack_samples = [1], k_loop_samples = [0]\<rparr>)
   \<and> sampwidth \<lparr>nchannels = 1, sampwidth = 2, framerate = 1000, nframes = 4,
                 frame_bytes = [255, 255, 1, 0, 255, 255, 1, 0]\<rparr> = 2
   \<and> extract_attack_and_loop
        \<lparr>nchannels = 1, sampwidth = 2, framerate = 1000, nframes = 4,
         frame_bytes = [255, 255, 1, 0, 255, 255, 1, 0]\<rparr> 2 0
       \<noteq> Inl (UnsupportedSampleWidth 2)
   \<and> fst (main \<lparr>nchannels = 1, sampwidth = 2, framerate = 1000, nframes = 4,
                  frame_bytes = [255, 255, 1, 0, 255, 255, 1, 0]\<rparr> None)
       \<noteq> Inl (UnsupportedSampleWidth 2)"
proof -
  let ?bad = "\<lparr>nchannels = 1, sampwidth = 1, framerate = 1000, nframes = 2,
               frame_bytes = [128, 127]\<rparr>"
  let ?good = "\<lparr>nchannels = 1, sampwidth = 2, framerate = 1000, nframes = 4,
                frame_bytes = [255, 255, 1, 0, 255, 255, 1, 0]\<rparr>"
  let ?old = "Some \<lparr>k_attack_samples = [1], k_loop_samples = [0]\<rparr>"
  have b: "sampwidth ?bad \<noteq> 2" by simp
  have g: "sampwidth ?good = 2" by simp
  from unsupported_width[of ?bad 45 200 "\<lambda>raw. None" ?old] b
  have e1: "extract_attack_and_loop ?bad 45 200 = Inl (UnsupportedSampleWidth 1)"
    and m1: "main ?bad ?old = (Inl (UnsupportedSampleWidth 1), ?old)"
    by simp_all
  from unsupported_width[of ?good 2 0 "\<lambda>raw. None" None] g
  have e2: "extract_attack_and_loop ?good 2 0 \<noteq> Inl (UnsupportedSampleWidth 2)"
    and m2: "fst (main ?good None) \<noteq> Inl (UnsupportedSampleWidth 2)"
    by blast+
  from b e1 m1 g e2 m2 show ?thesis by blast
qed

section \<open>Facts relating the two pipelines\<close>






section \<open>The two pipelines compared\<close>




end
